theory Spec2Isabelle
  imports Complex_Main "HOL-Library.AList"
begin

section \<open>Data model of the cleanup daemon\<close>

text \<open>
  The embedding follows \<^verbatim>\<open>cleanup_daemon.py\<close>. A Python \<^verbatim>\<open>float\<close> (a
  modification time, a clock reading, the CPU threshold) is a \<open>real\<close>, so NaN and
  rounding are outside the model; a Python \<^verbatim>\<open>int\<close> is an \<open>int\<close>. A \<^verbatim>\<open>dict\<close> is an
  association list with distinct keys in insertion order: reading is \<open>map_of\<close>,
  the assignment \<^verbatim>\<open>d[k] = v\<close> is \<open>AList.update\<close> (replace in place, or append).
\<close>

record FileInfo =
  path :: string
  size_bytes :: int
  mtime :: real
  relative_path :: string

record CleanupConfig =
  directories :: "string list"
  retention_seconds :: int
  max_files_per_dir :: int
  max_disk_size_bytes :: int
  scan_interval :: int
  heartbeat_interval :: int
  cpu_threshold :: real
  state_file :: string
  heartbeat_timeout :: int

type_synonym registry = "(string \<times> FileInfo list) list"

subsection \<open>The environment: files, the state file, the log\<close>

text \<open>
  A regular file of the environment. \<open>stat_ok\<close> is False when \<^verbatim>\<open>stat()\<close> raises
  OSError on it; \<open>deletable\<close> is False when \<^verbatim>\<open>unlink()\<close> raises on it (a
  permission error, say). Unlinking a path with no node raises as well.
\<close>

record file_node =
  node_size :: int
  node_mtime :: real
  stat_ok :: bool
  deletable :: bool

text \<open>What \<^verbatim>\<open>json.load\<close> can return. An object keeps its members in order.\<close>

datatype json =
    JNull
  | JBool bool
  | JInt int
  | JFloat real
  | JStr string
  | JArr "json list"
  | JObj "(string \<times> json) list"

text \<open>
  The state file: absent, present with text that does not parse, or holding a
  document.
\<close>

datatype state_doc = NoFile | Unparsable | Doc json

text \<open>
  \<open>fs_dirs\<close> are the directories that exist, \<open>fs_unwalkable\<close> those whose
  recursive walk raises, \<open>fs_files\<close> the regular files by absolute path (in the order
  the walk meets them). \<open>state_writable\<close> is False when opening the state file for
  writing (or creating its parent directory) raises.
\<close>

record filesystem =
  fs_dirs :: "string list"
  fs_unwalkable :: "string list"
  fs_files :: "(string \<times> file_node) list"
  state_store :: state_doc
  state_writable :: bool

datatype policy = ByTime | ByCount | BySize

text \<open>One constructor for each call of the logger in the source.\<close>

datatype log_event =
    WarnDirMissing string
  | DebugStatFailed string
  | ErrorScanFailed string
  | WarnCpuSampleFailed
  | InfoOverAge string nat
  | InfoOverCount string nat int nat
  | InfoOverSize string int int nat
  | InfoDeleted policy string
  | WarnDeleteFailed string
  | InfoCpuSkip
  | InfoCleanupStart
  | InfoDirDone string nat nat nat
  | ErrorSaveFailed
  | InfoStateLoaded
  | WarnLoadFailed
  | WarnWorkerNotRunning
  | WarnHeartbeatTimeout
  | DebugHeartbeatOk
  | InfoThreadStarted
  | InfoStoppingThread
  | WarnThreadForced
  | WarnRetentionEmpty
  | WarnRetentionFailed

text \<open>
  A worker thread as the supervisor sees it: whether it is alive, and how many
  cleanup cycles its loop has run.
\<close>

record worker =
  alive :: bool
  cycles :: nat

text \<open>
  The daemon object together with the environment it acts on. \<open>log\<close> collects
  the logger's calls in order.
\<close>

record daemon =
  config :: CleanupConfig
  file_registry :: registry
  running :: bool
  last_heartbeat :: real
  cleanup_thread :: "worker option"
  fs :: filesystem
  log :: "log_event list"

section \<open>Eviction policies\<close>

text \<open>\<^verbatim>\<open>self.file_registry.get(directory, [])\<close>\<close>

definition registry_get :: "registry \<Rightarrow> string \<Rightarrow> FileInfo list" where
  "registry_get reg d = (case map_of reg d of None \<Rightarrow> [] | Some files \<Rightarrow> files)"

text \<open>\<^verbatim>\<open>Path(p).unlink()\<close>: None when it raises.\<close>

definition unlink :: "filesystem \<Rightarrow> string \<Rightarrow> filesystem option" where
  "unlink fsys p =
     (case map_of (fs_files fsys) p of
        None \<Rightarrow> None
      | Some node \<Rightarrow>
          if deletable node
          then Some (fsys\<lparr>fs_files := AList.delete p (fs_files fsys)\<rparr>)
          else None)"

text \<open>
  The deletion loop shared by the three policies:
  \<^verbatim>\<open>
  for f in to_remove:
      try:
          Path(f.path).unlink(); files_removed += 1; logger.info(...)
      except Exception as e:
          logger.warning(...)
  \<close>
  The triple is the file system, \<^verbatim>\<open>files_removed\<close> and the log.
\<close>

fun unlink_files ::
  "policy \<Rightarrow> FileInfo list \<Rightarrow> filesystem \<times> nat \<times> log_event list
     \<Rightarrow> filesystem \<times> nat \<times> log_event list" where
  "unlink_files p [] acc = acc"
| "unlink_files p (f # rest) (fsys, n, lg) =
     (case unlink fsys (path f) of
        Some fsys' \<Rightarrow> unlink_files p rest (fsys', n + 1, lg @ [InfoDeleted p (path f)])
      | None \<Rightarrow> unlink_files p rest (fsys, n, lg @ [WarnDeleteFailed (path f)]))"

text \<open>
  \<^verbatim>\<open>_cleanup_by_time\<close>; \<open>now\<close> is the reading of \<^verbatim>\<open>time.time()\<close>. The result
  is the returned count and the daemon afterwards.
\<close>

definition cleanup_by_time :: "real \<Rightarrow> string \<Rightarrow> daemon \<Rightarrow> nat \<times> daemon" where
  "cleanup_by_time now directory s =
     (let cutoff_time = now - real_of_int (retention_seconds (config s));
          files = registry_get (file_registry s) directory;
          to_remove = filter (\<lambda>f. mtime f < cutoff_time) files;
          to_keep = filter (\<lambda>f. f \<notin> set to_remove) files;
          (fsys, files_removed, lg) =
            (if to_remove \<noteq> []
             then unlink_files ByTime to_remove
                    (fs s, 0, log s @ [InfoOverAge directory (length to_remove)])
             else (fs s, 0, log s))
      in (files_removed,
          s\<lparr>file_registry := AList.update directory to_keep (file_registry s),
            fs := fsys, log := lg\<rparr>))"

text \<open>
  \<^verbatim>\<open>_cleanup_by_count\<close>. \<^verbatim>\<open>files.sort(key=lambda x: x.mtime)\<close> is a stable sort,
  as \<open>sort_key\<close> is; the slices \<^verbatim>\<open>files[:n]\<close> and \<^verbatim>\<open>files[n:]\<close> with \<open>n > 0\<close>
  are \<open>take\<close> and \<open>drop\<close>.
\<close>

definition cleanup_by_count :: "string \<Rightarrow> daemon \<Rightarrow> nat \<times> daemon" where
  "cleanup_by_count directory s =
     (let files = registry_get (file_registry s) directory;
          current_count = int (length files);
          max_count = max_files_per_dir (config s)
      in if current_count \<le> max_count then (0, s)
         else
           let need_remove = nat (current_count - max_count);
               sorted_files = sort_key mtime files;
               to_remove = take need_remove sorted_files;
               to_keep = drop need_remove sorted_files;
               (fsys, files_removed, lg) =
                 unlink_files ByCount to_remove
                   (fs s, 0,
                    log s @ [InfoOverCount directory (length files) max_count need_remove])
           in (files_removed,
               s\<lparr>file_registry := AList.update directory to_keep (file_registry s),
                 fs := fsys, log := lg\<rparr>))"

text \<open>
  The selection loop of \<^verbatim>\<open>_cleanup_by_size\<close>:
  \<^verbatim>\<open>
  for f in files:
      if current_size <= max_size: break
      to_remove.append(f); current_size -= f.size
  \<close>
\<close>

fun size_victims :: "int \<Rightarrow> int \<Rightarrow> FileInfo list \<Rightarrow> FileInfo list" where
  "size_victims current_size max_size [] = []"
| "size_victims current_size max_size (f # rest) =
     (if current_size \<le> max_size then []
      else f # size_victims (current_size - size_bytes f) max_size rest)"

definition cleanup_by_size :: "string \<Rightarrow> daemon \<Rightarrow> nat \<times> daemon" where
  "cleanup_by_size directory s =
     (let files = registry_get (file_registry s) directory;
          total_size = sum_list (map size_bytes files);
          max_size = max_disk_size_bytes (config s)
      in if total_size \<le> max_size then (0, s)
         else
           let sorted_files = sort_key mtime files;
               to_remove = size_victims total_size max_size sorted_files;
               (fsys, files_removed, lg) =
                 unlink_files BySize to_remove
                   (fs s, 0,
                    log s @ [InfoOverSize directory total_size max_size (length to_remove)])
           in (files_removed,
               s\<lparr>file_registry :=
                   AList.update directory (drop (length to_remove) sorted_files)
                     (file_registry s),
                 fs := fsys, log := lg\<rparr>))"

section \<open>Directory scanner\<close>

text \<open>\<^verbatim>\<open>Path(directory).exists()\<close>\<close>

definition path_exists :: "filesystem \<Rightarrow> string \<Rightarrow> bool" where
  "path_exists fsys p = (p \<in> set (fs_dirs fsys) \<or> p \<in> fst ` set (fs_files fsys))"

fun strip_prefix :: "string \<Rightarrow> string \<Rightarrow> string option" where
  "strip_prefix [] ys = Some ys"
| "strip_prefix (x # xs) [] = None"
| "strip_prefix (x # xs) (y # ys) = (if x = y then strip_prefix xs ys else None)"

text \<open>
  \<^verbatim>\<open>dir_path.rglob('*')\<close> restricted to regular files: every file below the
  directory, with its path relative to it. Directory names are taken in the form
  pathlib prints them (no trailing separator).
\<close>

definition rglob_files :: "filesystem \<Rightarrow> string \<Rightarrow> (string \<times> string \<times> file_node) list" where
  "rglob_files fsys directory =
     List.map_filter
       (\<lambda>(p, node).
          case strip_prefix (directory @ ''/'') p of
            None \<Rightarrow> None
          | Some rel \<Rightarrow> if rel = [] then None else Some (p, rel, node))
       (fs_files fsys)"

text \<open>
  The body of the walk: a file whose \<^verbatim>\<open>stat()\<close> raises is skipped with a debug
  line, any other is stored in the dict \<^verbatim>\<open>current_files\<close> under its path.
\<close>

fun scan_entries ::
  "(string \<times> string \<times> file_node) list \<Rightarrow> (string \<times> FileInfo) list \<times> log_event list
     \<Rightarrow> (string \<times> FileInfo) list \<times> log_event list" where
  "scan_entries [] acc = acc"
| "scan_entries ((p, rel, node) # rest) (current_files, lg) =
     (if stat_ok node
      then scan_entries rest
             (AList.update p
                \<lparr>path = p, size_bytes = node_size node, mtime = node_mtime node,
                 relative_path = rel\<rparr> current_files, lg)
      else scan_entries rest (current_files, lg @ [DebugStatFailed p]))"

text \<open>
  \<^verbatim>\<open>_scan_directory\<close>. Both early returns leave the registry as it was. A walk
  that raises is modelled as raising before the first file.
\<close>

definition scan_directory :: "string \<Rightarrow> daemon \<Rightarrow> daemon" where
  "scan_directory directory s =
     (if \<not> path_exists (fs s) directory
      then s\<lparr>log := log s @ [WarnDirMissing directory]\<rparr>
      else if directory \<in> set (fs_unwalkable (fs s))
      then s\<lparr>log := log s @ [ErrorScanFailed directory]\<rparr>
      else
        let (current_files, lg) = scan_entries (rglob_files (fs s) directory) ([], log s)
        in s\<lparr>file_registry := AList.update directory (map snd current_files) (file_registry s),
             log := lg\<rparr>)"

section \<open>State persistence\<close>

definition file_to_json :: "FileInfo \<Rightarrow> json" where
  "file_to_json f =
     JObj [(''path'', JStr (path f)), (''size'', JInt (size_bytes f)),
           (''mtime'', JFloat (mtime f)), (''relative_path'', JStr (relative_path f))]"

definition registry_to_json :: "registry \<Rightarrow> json" where
  "registry_to_json reg = JObj (map (\<lambda>(dir_path, files). (dir_path, JArr (map file_to_json files))) reg)"

text \<open>
  \<^verbatim>\<open>_save_state\<close>: any exception is caught and logged, and the file is then left
  as it was.
\<close>

definition save_state :: "daemon \<Rightarrow> daemon" where
  "save_state s =
     (if state_writable (fs s)
      then s\<lparr>fs := (fs s)\<lparr>state_store := Doc (registry_to_json (file_registry s))\<rparr>\<rparr>
      else s\<lparr>log := log s @ [ErrorSaveFailed]\<rparr>)"

text \<open>\<^verbatim>\<open>fd[key]\<close>: raises unless \<open>fd\<close> is an object with that member.\<close>

definition json_member :: "json \<Rightarrow> string \<Rightarrow> json option" where
  "json_member j key = (case j of JObj members \<Rightarrow> map_of members key | _ \<Rightarrow> None)"

text \<open>
  The four fields of a FileInfo read back from a document. Python stores whatever
  value the member has; the typed record of the model takes a string for the two
  paths, an integer for the size and a number for the modification time, and a
  member of another type counts as a failed load.
\<close>

definition json_str :: "json \<Rightarrow> string option" where
  "json_str j = (case j of JStr v \<Rightarrow> Some v | _ \<Rightarrow> None)"

definition json_int :: "json \<Rightarrow> int option" where
  "json_int j = (case j of JInt v \<Rightarrow> Some v | _ \<Rightarrow> None)"

definition json_number :: "json \<Rightarrow> real option" where
  "json_number j = (case j of JFloat v \<Rightarrow> Some v | JInt v \<Rightarrow> Some (real_of_int v) | _ \<Rightarrow> None)"

definition file_of_json :: "json \<Rightarrow> FileInfo option" where
  "file_of_json fd =
     (case Option.bind (json_member fd ''path'') json_str of
        None \<Rightarrow> None
      | Some p \<Rightarrow>
     (case Option.bind (json_member fd ''size'') json_int of
        None \<Rightarrow> None
      | Some sz \<Rightarrow>
     (case Option.bind (json_member fd ''mtime'') json_number of
        None \<Rightarrow> None
      | Some mt \<Rightarrow>
     (case Option.bind (json_member fd ''relative_path'') json_str of
        None \<Rightarrow> None
      | Some rp \<Rightarrow>
          Some \<lparr>path = p, size_bytes = sz, mtime = mt, relative_path = rp\<rparr>))))"

text \<open>
  \<^verbatim>\<open>[FileInfo(...) for fd in files_data]\<close>: None when the comprehension raises.
  Iterating an empty object or an empty string gives the empty list.
\<close>

definition files_of_json :: "json \<Rightarrow> FileInfo list option" where
  "files_of_json files_data =
     (case files_data of
        JArr items \<Rightarrow> those (map file_of_json items)
      | JObj members \<Rightarrow> (if members = [] then Some [] else None)
      | JStr text \<Rightarrow> (if text = [] then Some [] else None)
      | _ \<Rightarrow> None)"

text \<open>
  The loop over \<^verbatim>\<open>state_data.items()\<close>. An exception ends it, keeping the
  entries assigned so far; the flag tells whether the loop completed.
\<close>

fun load_entries :: "(string \<times> json) list \<Rightarrow> registry \<Rightarrow> registry \<times> bool" where
  "load_entries [] reg = (reg, True)"
| "load_entries ((dir_path, files_data) # rest) reg =
     (case files_of_json files_data of
        None \<Rightarrow> (reg, False)
      | Some files \<Rightarrow> load_entries rest (AList.update dir_path files reg))"

text \<open>The first half of \<^verbatim>\<open>_load_initial_state\<close>: reading the state file.\<close>

definition load_state :: "daemon \<Rightarrow> daemon" where
  "load_state s =
     (case state_store (fs s) of
        NoFile \<Rightarrow> s
      | Unparsable \<Rightarrow> s\<lparr>log := log s @ [WarnLoadFailed]\<rparr>
      | Doc state_data \<Rightarrow>
          (case state_data of
             JObj members \<Rightarrow>
               let (reg, ok) = load_entries members (file_registry s)
               in s\<lparr>file_registry := reg,
                    log := log s @ [if ok then InfoStateLoaded else WarnLoadFailed]\<rparr>
           | _ \<Rightarrow> s\<lparr>log := log s @ [WarnLoadFailed]\<rparr>))"

definition load_initial_state :: "daemon \<Rightarrow> daemon" where
  "load_initial_state s =
     save_state (fold scan_directory (directories (config s)) (load_state s))"

section \<open>Cleanup cycle\<close>

text \<open>What \<^verbatim>\<open>psutil.cpu_percent(interval=1)\<close> gives: a percentage, or an exception.\<close>

datatype cpu_sample = Sampled real | SampleFailed

definition is_cpu_busy :: "cpu_sample \<Rightarrow> daemon \<Rightarrow> bool \<times> daemon" where
  "is_cpu_busy sample s =
     (case sample of
        Sampled pct \<Rightarrow> (pct > cpu_threshold (config s), s)
      | SampleFailed \<Rightarrow> (False, s\<lparr>log := log s @ [WarnCpuSampleFailed]\<rparr>))"

text \<open>
  What one cycle reads from outside: the CPU sample, the clock at the age pass of
  each directory, and the clock at the end of the cycle.
\<close>

record cycle_env =
  cpu :: cpu_sample
  clock :: "string \<Rightarrow> real"
  clock_end :: real

text \<open>The body of the loop over the directories in \<^verbatim>\<open>_perform_cleanup\<close>.\<close>

definition clean_directory :: "(string \<Rightarrow> real) \<Rightarrow> string \<Rightarrow> daemon \<Rightarrow> daemon" where
  "clean_directory clk directory s =
     (let s1 = scan_directory directory s;
          (time_removed, s2) = cleanup_by_time (clk directory) directory s1;
          (count_removed, s3) = cleanup_by_count directory s2;
          (size_removed, s4) = cleanup_by_size directory s3
      in s4\<lparr>log := log s4 @ [InfoDirDone directory time_removed count_removed size_removed]\<rparr>)"

text \<open>\<^verbatim>\<open>_perform_cleanup\<close>\<close>

definition perform_cleanup :: "cycle_env \<Rightarrow> daemon \<Rightarrow> daemon" where
  "perform_cleanup env s =
     (let (busy, s1) = is_cpu_busy (cpu env) s
      in if busy then s1\<lparr>log := log s1 @ [InfoCpuSkip]\<rparr>
         else
           let s2 = fold (clean_directory (clock env)) (directories (config s1))
                      (s1\<lparr>log := log s1 @ [InfoCleanupStart]\<rparr>);
               s3 = save_state s2
           in s3\<lparr>last_heartbeat := clock_end env\<rparr>)"

section \<open>Worker loop and heartbeat supervisor\<close>

text \<open>
  The thread behind the handle \<^verbatim>\<open>self.cleanup_thread\<close> takes one step of its
  loop: it counts a cycle, or it leaves the loop and ends.
\<close>

definition count_cycle :: "daemon \<Rightarrow> daemon" where
  "count_cycle s = s\<lparr>cleanup_thread := map_option (\<lambda>w. w\<lparr>cycles := cycles w + 1\<rparr>) (cleanup_thread s)\<rparr>"

definition thread_exit :: "daemon \<Rightarrow> daemon" where
  "thread_exit s = s\<lparr>cleanup_thread := map_option (\<lambda>w. w\<lparr>alive := False\<rparr>) (cleanup_thread s)\<rparr>"

text \<open>
  \<^verbatim>\<open>_cleanup_loop\<close>, the target of the worker thread:
  \<^verbatim>\<open>
  while self.running:
      self._perform_cleanup()
      for _ in range(self.config.scan_interval):
          if not self.running: break
          time.sleep(1)
  \<close>
  The loop has no bound of its own, so it runs on fuel: None says that the fuel
  ran out with the loop still going, \<open>Some\<close> that the thread has returned.
  \<open>envs k\<close> is what the cycle started with \<open>k\<close> units of fuel left reads.
\<close>

fun cleanup_loop :: "nat \<Rightarrow> (nat \<Rightarrow> cycle_env) \<Rightarrow> daemon \<Rightarrow> daemon option" where
  "cleanup_loop 0 envs s = None"
| "cleanup_loop (Suc k) envs s =
     (if \<not> running s then Some (thread_exit s)
      else cleanup_loop k envs (count_cycle (perform_cleanup (envs k) s)))"

text \<open>\<^verbatim>\<open>_start_cleanup_thread\<close>: a new thread replaces the handle.\<close>

definition start_cleanup_thread :: "daemon \<Rightarrow> daemon" where
  "start_cleanup_thread s =
     s\<lparr>cleanup_thread := Some \<lparr>alive = True, cycles = 0\<rparr>,
       log := log s @ [InfoThreadStarted]\<rparr>"

text \<open>
  \<^verbatim>\<open>_stop_cleanup_thread\<close>. \<open>joined\<close> tells whether the thread ended within
  the ten seconds of \<^verbatim>\<open>join(timeout=10)\<close>.
\<close>

definition stop_cleanup_thread :: "bool \<Rightarrow> daemon \<Rightarrow> daemon" where
  "stop_cleanup_thread joined s =
     (case cleanup_thread s of
        None \<Rightarrow> s
      | Some w \<Rightarrow>
          if alive w
          then
            s\<lparr>running := False,
              cleanup_thread := Some (w\<lparr>alive := \<not> joined\<rparr>),
              log := log s @ [InfoStoppingThread] @ (if joined then [] else [WarnThreadForced])\<rparr>
          else s)"

text \<open>
  One turn of the loop of \<^verbatim>\<open>_heartbeat_monitor\<close>, at the clock reading
  \<open>current_time\<close>.
\<close>

definition heartbeat_tick :: "real \<Rightarrow> bool \<Rightarrow> daemon \<Rightarrow> daemon" where
  "heartbeat_tick current_time joined s =
     (let timeout = current_time - last_heartbeat s > real_of_int (heartbeat_timeout (config s))
      in if cleanup_thread s = None \<or> \<not> alive (the (cleanup_thread s))
         then start_cleanup_thread (s\<lparr>log := log s @ [WarnWorkerNotRunning]\<rparr>)
         else if timeout
         then start_cleanup_thread
                (stop_cleanup_thread joined (s\<lparr>log := log s @ [WarnHeartbeatTimeout]\<rparr>))
         else s\<lparr>log := log s @ [DebugHeartbeatOk]\<rparr>)"

text \<open>
  \<^verbatim>\<open>_heartbeat_monitor\<close>: \<^verbatim>\<open>while self.running\<close> around the turn above, on
  fuel like the worker loop. \<open>ticks k\<close> is the clock reading and the outcome of the
  join for the turn started with \<open>k\<close> units of fuel left.
\<close>

fun heartbeat_monitor :: "nat \<Rightarrow> (nat \<Rightarrow> real \<times> bool) \<Rightarrow> daemon \<Rightarrow> daemon option" where
  "heartbeat_monitor 0 ticks s = None"
| "heartbeat_monitor (Suc k) ticks s =
     (if \<not> running s then Some s
      else heartbeat_monitor k ticks (heartbeat_tick (fst (ticks k)) (snd (ticks k)) s))"

section \<open>Configuration\<close>

datatype py_error = ValueError

definition DEFAULT_CONFIG :: "(string \<times> string) list" where
  "DEFAULT_CONFIG =
     [(''CLEANUP_DIRECTORIES'', ''/var/log''),
      (''RETENTION_DAYS'', ''3''),
      (''MAX_FILES_PER_DIR'', ''10000''),
      (''MAX_DISK_SIZE_MB'', ''10240''),
      (''SCAN_INTERVAL'', ''300''),
      (''HEARTBEAT_INTERVAL'', ''300''),
      (''CPU_THRESHOLD'', ''80.0''),
      (''STATE_FILE'', ''/tmp/cleanup_daemon_state.json''),
      (''HEARTBEAT_TIMEOUT'', ''600'')]"

text \<open>
  \<^verbatim>\<open>os.getenv(key, DEFAULT_CONFIG[key])\<close>, for the nine keys of the table.
\<close>

definition get_env :: "(string \<times> string) list \<Rightarrow> string \<Rightarrow> string" where
  "get_env environ key =
     (case map_of environ key of
        Some v \<Rightarrow> v
      | None \<Rightarrow> (case map_of DEFAULT_CONFIG key of Some v \<Rightarrow> v | None \<Rightarrow> []))"

definition is_space :: "char \<Rightarrow> bool" where
  "is_space c = (let n = (of_char c :: nat) in (9 \<le> n \<and> n \<le> 13) \<or> (28 \<le> n \<and> n \<le> 32))"

definition is_digit :: "char \<Rightarrow> bool" where
  "is_digit c = (let n = (of_char c :: nat) in 48 \<le> n \<and> n \<le> 57)"

definition digit_val :: "char \<Rightarrow> nat" where
  "digit_val c = of_char c - 48"

text \<open>\<^verbatim>\<open>str.strip()\<close>\<close>

definition strip :: "string \<Rightarrow> string" where
  "strip text = rev (dropWhile is_space (rev (dropWhile is_space text)))"

text \<open>\<^verbatim>\<open>str.lower()\<close> on ASCII letters.\<close>

definition lower :: "string \<Rightarrow> string" where
  "lower text =
     map (\<lambda>c. case map_of (zip ''ABCDEFGHIJKLMNOPQRSTUVWXYZ'' ''abcdefghijklmnopqrstuvwxyz'') c of
               Some l \<Rightarrow> l
             | None \<Rightarrow> c) text"

text \<open>
  The digits of a decimal literal after its first digit: digits, each optionally
  preceded by one underscore.
\<close>

fun int_digits :: "nat \<Rightarrow> string \<Rightarrow> nat option" where
  "int_digits acc [] = Some acc"
| "int_digits acc (c # cs) =
     (if is_digit c then int_digits (10 * acc + digit_val c) cs
      else if c = CHR ''_'' then
        (case cs of
           [] \<Rightarrow> None
         | d # ds \<Rightarrow> if is_digit d then int_digits (10 * acc + digit_val d) ds else None)
      else None)"

text \<open>
  \<^verbatim>\<open>int(text)\<close> on a string: surrounding white space, an optional sign, decimal
  digits. \<open>Inl ValueError\<close> when Python raises.
\<close>

definition py_int :: "string \<Rightarrow> py_error + int" where
  "py_int text =
     (let t = strip text;
          (sign, body) =
            (case t of
               [] \<Rightarrow> (1, [])
             | c # cs \<Rightarrow>
                 if c = CHR ''-'' then (- 1, cs)
                 else if c = CHR ''+'' then (1, cs)
                 else (1::int, t))
      in case body of
           [] \<Rightarrow> Inl ValueError
         | d # ds \<Rightarrow>
             if is_digit d
             then (case int_digits (digit_val d) ds of
                     None \<Rightarrow> Inl ValueError
                   | Some n \<Rightarrow> Inr (sign * int n))
             else Inl ValueError)"

text \<open>\<^verbatim>\<open>str.split(',')\<close>\<close>

fun split_on :: "char \<Rightarrow> string \<Rightarrow> string list" where
  "split_on sep [] = [[]]"
| "split_on sep (c # cs) =
     (let r = split_on sep cs in if c = sep then [] # r else (c # hd r) # tl r)"

definition units :: "(char \<times> nat) list" where
  "units = [(CHR ''s'', 1), (CHR ''m'', 60), (CHR ''h'', 3600), (CHR ''d'', 86400)]"

text \<open>
  \<^verbatim>\<open>_parse_retention_time\<close>. The loop collects the leading digits and dots and
  looks at the first other character for a unit. \<^verbatim>\<open>float\<close> of the collected
  characters raises unless they hold a digit and at most one dot; the product with
  the unit is computed exactly here and then truncated as \<^verbatim>\<open>int\<close> does. The
  second component is the warning logged, if any.
\<close>

definition parse_retention_time :: "string \<Rightarrow> int \<times> log_event list" where
  "parse_retention_time time_str =
     (let t = lower (strip time_str)
      in if t = [] then (3 * 86400, [WarnRetentionEmpty])
         else
           let num_str = takeWhile (\<lambda>c. is_digit c \<or> c = CHR ''.'') t;
               rest = dropWhile (\<lambda>c. is_digit c \<or> c = CHR ''.'') t;
               unit = (case rest of
                         [] \<Rightarrow> CHR ''d''
                       | c # _ \<Rightarrow> if map_of units c \<noteq> None then c else CHR ''d'');
               digits = filter is_digit num_str;
               dots = length (filter (\<lambda>c. c = CHR ''.'') num_str);
               decimals = length (takeWhile is_digit (rev num_str))
           in if digits = [] \<or> 1 < dots then (3 * 86400, [WarnRetentionFailed])
              else
                let mantissa = foldl (\<lambda>acc c. 10 * acc + digit_val c) 0 digits;
                    scale = (if dots = 0 then 1 else 10 ^ decimals);
                    factor = (case map_of units unit of Some u \<Rightarrow> u | None \<Rightarrow> 0)
                in (int ((mantissa * factor) div scale), []))"

text \<open>
  \<^verbatim>\<open>_load_config\<close>. The arguments of the constructor are evaluated in the order
  written, and the first \<^verbatim>\<open>int\<close> or \<^verbatim>\<open>float\<close> that raises ends the call with its
  exception: there is no handler. \<open>py_float\<close> stands for the builtin \<^verbatim>\<open>float\<close> on
  strings.
\<close>

definition load_config ::
  "(string \<Rightarrow> py_error + real) \<Rightarrow> (string \<times> string) list
     \<Rightarrow> py_error + (CleanupConfig \<times> log_event list)" where
  "load_config py_float environ =
     (let dirs = split_on CHR '','' (get_env environ ''CLEANUP_DIRECTORIES'');
          (retention, warnings) = parse_retention_time (get_env environ ''RETENTION_DAYS'')
      in case py_int (get_env environ ''MAX_FILES_PER_DIR'') of
           Inl e \<Rightarrow> Inl e
         | Inr max_files \<Rightarrow>
      (case py_int (get_env environ ''MAX_DISK_SIZE_MB'') of
           Inl e \<Rightarrow> Inl e
         | Inr max_mb \<Rightarrow>
      (case py_int (get_env environ ''SCAN_INTERVAL'') of
           Inl e \<Rightarrow> Inl e
         | Inr scan \<Rightarrow>
      (case py_int (get_env environ ''HEARTBEAT_INTERVAL'') of
           Inl e \<Rightarrow> Inl e
         | Inr hb_interval \<Rightarrow>
      (case py_float (get_env environ ''CPU_THRESHOLD'') of
           Inl e \<Rightarrow> Inl e
         | Inr threshold \<Rightarrow>
      (case py_int (get_env environ ''HEARTBEAT_TIMEOUT'') of
           Inl e \<Rightarrow> Inl e
         | Inr hb_timeout \<Rightarrow>
             Inr (\<lparr>directories = dirs,
                   retention_seconds = retention,
                   max_files_per_dir = max_files,
                   max_disk_size_bytes = max_mb * 1024 * 1024,
                   scan_interval = scan,
                   heartbeat_interval = hb_interval,
                   cpu_threshold = threshold,
                   state_file = get_env environ ''STATE_FILE'',
                   heartbeat_timeout = hb_timeout\<rparr>, warnings)))))))"

text \<open>
  \<^verbatim>\<open>LogCleanupDaemon.__init__\<close>: an exception of \<^verbatim>\<open>_load_config\<close> leaves the
  constructor, and with it \<^verbatim>\<open>start_cleanup_daemon\<close>.
\<close>

definition init_daemon ::
  "(string \<Rightarrow> py_error + real) \<Rightarrow> (string \<times> string) list \<Rightarrow> real \<Rightarrow> filesystem
     \<Rightarrow> py_error + daemon" where
  "init_daemon py_float environ now fsys =
     (case load_config py_float environ of
        Inl e \<Rightarrow> Inl e
      | Inr (cfg, warnings) \<Rightarrow>
          Inr (load_initial_state
                 \<lparr>config = cfg, file_registry = [], running = True, last_heartbeat = now,
                  cleanup_thread = None, fs = fsys, log = warnings\<rparr>))"

section \<open>Observations used in the statements\<close>

text \<open>The number of failed deletions a log reports.\<close>

fun is_delete_failure :: "log_event \<Rightarrow> bool" where
  "is_delete_failure (WarnDeleteFailed p) = True"
| "is_delete_failure _ = False"

definition delete_failures :: "log_event list \<Rightarrow> nat" where
  "delete_failures lg = length (filter is_delete_failure lg)"

text \<open>What a step appended to the log of \<open>s\<close> to reach the log of \<open>s'\<close>.\<close>

definition new_events :: "daemon \<Rightarrow> daemon \<Rightarrow> log_event list" where
  "new_events s s' = drop (length (log s)) (log s')"

text \<open>The snapshot a walk of the directory produces, from the file system alone.\<close>

definition snapshot :: "filesystem \<Rightarrow> string \<Rightarrow> FileInfo list" where
  "snapshot fsys directory = map snd (fst (scan_entries (rglob_files fsys directory) ([], [])))"

text \<open>The aggregate size of a list of records.\<close>

definition total_size :: "FileInfo list \<Rightarrow> int" where
  "total_size files = sum_list (map size_bytes files)"

section \<open>Example inputs\<close>

text \<open>
  A daemon watching \<^verbatim>\<open>/logs\<close> with a retention of three days, a cap of two files
  and a cap of 100 bytes. The directory holds three files; the oldest cannot be
  deleted.
\<close>

definition example_config :: CleanupConfig where
  "example_config =
     \<lparr>directories = [''/logs''], retention_seconds = 259200, max_files_per_dir = 2,
      max_disk_size_bytes = 100, scan_interval = 300, heartbeat_interval = 300,
      cpu_threshold = 80, state_file = ''/tmp/s.json'', heartbeat_timeout = 600\<rparr>"

definition rec_old :: FileInfo where
  "rec_old = \<lparr>path = ''/logs/a'', size_bytes = 60, mtime = 100, relative_path = ''a''\<rparr>"

definition rec_mid :: FileInfo where
  "rec_mid = \<lparr>path = ''/logs/b'', size_bytes = 50, mtime = 900000, relative_path = ''b''\<rparr>"

definition rec_new :: FileInfo where
  "rec_new = \<lparr>path = ''/logs/c'', size_bytes = 40, mtime = 950000, relative_path = ''c''\<rparr>"

definition example_fs :: filesystem where
  "example_fs =
     \<lparr>fs_dirs = [''/logs''], fs_unwalkable = [],
      fs_files =
        [(''/logs/b'', \<lparr>node_size = 50, node_mtime = 900000, stat_ok = True, deletable = True\<rparr>),
         (''/logs/a'', \<lparr>node_size = 60, node_mtime = 100, stat_ok = True, deletable = False\<rparr>),
         (''/logs/c'', \<lparr>node_size = 40, node_mtime = 950000, stat_ok = True, deletable = True\<rparr>)],
      state_store = NoFile, state_writable = True\<rparr>"

definition example_daemon :: daemon where
  "example_daemon =
     \<lparr>config = example_config,
      file_registry = [(''/logs'', [rec_mid, rec_old, rec_new])],
      running = True, last_heartbeat = 0,
      cleanup_thread = Some \<lparr>alive = True, cycles = 3\<rparr>,
      fs = example_fs, log = []\<rparr>"

text \<open>
  The same daemon after \<^verbatim>\<open>/logs\<close> has been removed from disk: the registry
  still holds the three records of the last scan.
\<close>

definition gone_daemon :: daemon where
  "gone_daemon = example_daemon\<lparr>fs := example_fs\<lparr>fs_dirs := [], fs_files := []\<rparr>\<rparr>"

text \<open>A cycle that samples 95 percent CPU and ends at clock reading 1000.\<close>

definition busy_env :: cycle_env where
  "busy_env = \<lparr>cpu = Sampled 95, clock = (\<lambda>d. 1000000), clock_end = 1000\<rparr>"

section \<open>Properties of the eviction policies\<close>
lemma registry_get_update [simp]:
  "registry_get (AList.update d v reg) d = v"
  by (simp add: registry_get_def update_conv')

lemma registry_get_update_other [simp]:
  "d' \<noteq> d \<Longrightarrow> registry_get (AList.update d v reg) d' = registry_get reg d'"
  by (simp add: registry_get_def update_conv')

lemma unlink_files_log:
  "\<exists>ev. snd (snd (unlink_files p xs (fsys, n, lg))) = lg @ ev \<and>
        fst (snd (unlink_files p xs (fsys, n, lg))) + delete_failures ev = n + length xs"
proof (induction xs arbitrary: fsys n lg)
  case Nil
  then show ?case by (simp add: delete_failures_def)
next
  case (Cons f rest)
  show ?case
  proof (cases "unlink fsys (path f)")
    case None
    from Cons.IH[of fsys n "lg @ [WarnDeleteFailed (path f)]"]
    obtain ev where "snd (snd (unlink_files p rest (fsys, n, lg @ [WarnDeleteFailed (path f)]))) = (lg @ [WarnDeleteFailed (path f)]) @ ev"
      and "fst (snd (unlink_files p rest (fsys, n, lg @ [WarnDeleteFailed (path f)]))) + delete_failures ev = n + length rest"
      by blast
    with None show ?thesis
      by (intro exI[of _ "WarnDeleteFailed (path f) # ev"]) (simp add: delete_failures_def)
  next
    case (Some fsys')
    from Cons.IH[of fsys' "n + 1" "lg @ [InfoDeleted p (path f)]"]
    obtain ev where "snd (snd (unlink_files p rest (fsys', n + 1, lg @ [InfoDeleted p (path f)]))) = (lg @ [InfoDeleted p (path f)]) @ ev"
      and "fst (snd (unlink_files p rest (fsys', n + 1, lg @ [InfoDeleted p (path f)]))) + delete_failures ev = n + 1 + length rest"
      by blast
    with Some show ?thesis
      by (intro exI[of _ "InfoDeleted p (path f) # ev"]) (simp add: delete_failures_def)
  qed
qed

text \<open>
  Claim C9. The age pass is idempotent at a fixed clock reading: after one pass no
  record of the entry is older than the cutoff \<open>now - retention\<close>, and a second
  pass on the daemon the first one left returns 0 and changes nothing at all
  (registry, file system and log).
\<close>

theorem age_pass_idempotent:
  "let (n1, s1) = cleanup_by_time now d s;
       (n2, s2) = cleanup_by_time now d s1
   in (\<forall>f \<in> set (registry_get (file_registry s1) d).
         now - real_of_int (retention_seconds (config s)) \<le> mtime f)
      \<and> n2 = 0 \<and> s2 = s1"
  by (auto simp: cleanup_by_time_def Let_def split: prod.splits if_splits)

lemma keep_old:
  "filter (\<lambda>f. f \<notin> set (filter (\<lambda>f. mtime f < c) xs)) xs = filter (\<lambda>f. c \<le> mtime f) xs"
  by (rule filter_cong) auto

lemma cleanup_by_time_registry:
  "file_registry (snd (cleanup_by_time now d s)) =
     AList.update d
       (filter (\<lambda>f. now - real_of_int (retention_seconds (config s)) \<le> mtime f)
          (registry_get (file_registry s) d))
       (file_registry s)"
  unfolding cleanup_by_time_def Let_def keep_old
  by (simp split: prod.splits)

lemma cleanup_by_time_count:
  "fst (cleanup_by_time now d s) + delete_failures (new_events s (snd (cleanup_by_time now d s))) =
     length (filter (\<lambda>f. mtime f < now - real_of_int (retention_seconds (config s)))
               (registry_get (file_registry s) d))"
proof -
  let ?old = "filter (\<lambda>f. mtime f < now - real_of_int (retention_seconds (config s)))
               (registry_get (file_registry s) d)"
  show ?thesis
  proof (cases "?old = []")
    case True
    then show ?thesis
      unfolding cleanup_by_time_def Let_def keep_old
      by (simp add: new_events_def delete_failures_def)
  next
    case False
    let ?lg = "log s @ [InfoOverAge d (length ?old)]"
    obtain fsys n lg where u: "unlink_files ByTime ?old (fs s, 0, ?lg) = (fsys, n, lg)"
      by (cases "unlink_files ByTime ?old (fs s, 0, ?lg)") auto
    from unlink_files_log[of ByTime ?old "fs s" 0 ?lg] u
    obtain ev where ev: "lg = ?lg @ ev" and cnt: "n + delete_failures ev = length ?old"
      by auto
    have "delete_failures (drop (length (log s)) lg) = delete_failures ev"
      by (simp add: ev delete_failures_def)
    with False u cnt show ?thesis
      unfolding cleanup_by_time_def Let_def keep_old
      by (simp add: new_events_def)
  qed
qed

text \<open>
  Claim C2, as the code has it. After the age pass the registry entry holds exactly
  the records that are not older than the cutoff: every older record is dropped,
  whether or not its file could be deleted. The returned count and the number of
  failures the pass logged add up to the number of records dropped, so a failed
  deletion is not counted and does not stop the loop.
\<close>

theorem age_pass_drops_all_old:
  "let cutoff = now - real_of_int (retention_seconds (config s));
       files = registry_get (file_registry s) d;
       r = cleanup_by_time now d s
   in registry_get (file_registry (snd r)) d = filter (\<lambda>f. cutoff \<le> mtime f) files
      \<and> fst r + delete_failures (new_events s (snd r)) =
          length (filter (\<lambda>f. mtime f < cutoff) files)"
  by (simp add: Let_def cleanup_by_time_registry cleanup_by_time_count)

lemma cleanup_by_count_noop:
  "int (length (registry_get (file_registry s) d)) \<le> max_files_per_dir (config s)
     \<Longrightarrow> cleanup_by_count d s = (0, s)"
  by (simp add: cleanup_by_count_def Let_def)

lemma cleanup_by_count_registry:
  "max_files_per_dir (config s) < int (length (registry_get (file_registry s) d))
     \<Longrightarrow> file_registry (snd (cleanup_by_count d s)) =
         AList.update d
           (drop (nat (int (length (registry_get (file_registry s) d)) - max_files_per_dir (config s)))
              (sort_key mtime (registry_get (file_registry s) d)))
           (file_registry s)"
  by (simp add: cleanup_by_count_def Let_def split: prod.splits)

lemma cleanup_by_count_count:
  assumes "max_files_per_dir (config s) < int (length (registry_get (file_registry s) d))"
  shows "fst (cleanup_by_count d s) + delete_failures (new_events s (snd (cleanup_by_count d s))) =
     length (take (nat (int (length (registry_get (file_registry s) d)) - max_files_per_dir (config s)))
               (sort_key mtime (registry_get (file_registry s) d)))"
proof -
  let ?files = "registry_get (file_registry s) d"
  let ?k = "nat (int (length ?files) - max_files_per_dir (config s))"
  let ?rm = "take ?k (sort_key mtime ?files)"
  let ?lg = "log s @ [InfoOverCount d (length ?files) (max_files_per_dir (config s)) ?k]"
  obtain fsys n lg where u: "unlink_files ByCount ?rm (fs s, 0, ?lg) = (fsys, n, lg)"
    by (cases "unlink_files ByCount ?rm (fs s, 0, ?lg)") auto
  from unlink_files_log[of ByCount ?rm "fs s" 0 ?lg] u
  obtain ev where ev: "lg = ?lg @ ev" and cnt: "n + delete_failures ev = length ?rm"
    by auto
  have "delete_failures (drop (length (log s)) lg) = delete_failures ev"
    by (simp add: ev delete_failures_def)
  with assms u cnt show ?thesis
    by (simp add: cleanup_by_count_def Let_def new_events_def)
qed

lemma cleanup_by_size_noop:
  "sum_list (map size_bytes (registry_get (file_registry s) d)) \<le> max_disk_size_bytes (config s)
     \<Longrightarrow> cleanup_by_size d s = (0, s)"
  by (simp add: cleanup_by_size_def Let_def)

lemma cleanup_by_size_registry:
  "max_disk_size_bytes (config s) < sum_list (map size_bytes (registry_get (file_registry s) d))
     \<Longrightarrow> file_registry (snd (cleanup_by_size d s)) =
         AList.update d
           (drop (length (size_victims (sum_list (map size_bytes (registry_get (file_registry s) d)))
                            (max_disk_size_bytes (config s))
                            (sort_key mtime (registry_get (file_registry s) d))))
              (sort_key mtime (registry_get (file_registry s) d)))
           (file_registry s)"
  by (simp add: cleanup_by_size_def Let_def split: prod.splits)

lemma cleanup_by_size_count:
  assumes "max_disk_size_bytes (config s) < sum_list (map size_bytes (registry_get (file_registry s) d))"
  shows "fst (cleanup_by_size d s) + delete_failures (new_events s (snd (cleanup_by_size d s))) =
     length (size_victims (sum_list (map size_bytes (registry_get (file_registry s) d)))
               (max_disk_size_bytes (config s))
               (sort_key mtime (registry_get (file_registry s) d)))"
proof -
  let ?files = "registry_get (file_registry s) d"
  let ?S = "sum_list (map size_bytes ?files)"
  let ?M = "max_disk_size_bytes (config s)"
  let ?rm = "size_victims ?S ?M (sort_key mtime ?files)"
  let ?lg = "log s @ [InfoOverSize d ?S ?M (length ?rm)]"
  obtain fsys n lg where u: "unlink_files BySize ?rm (fs s, 0, ?lg) = (fsys, n, lg)"
    by (cases "unlink_files BySize ?rm (fs s, 0, ?lg)") auto
  from unlink_files_log[of BySize ?rm "fs s" 0 ?lg] u
  obtain ev where ev: "lg = ?lg @ ev" and cnt: "n + delete_failures ev = length ?rm"
    by auto
  have "delete_failures (drop (length (log s)) lg) = delete_failures ev"
    by (simp add: ev delete_failures_def)
  with assms u cnt show ?thesis
    by (simp add: cleanup_by_size_def Let_def new_events_def)
qed

lemma size_victims_length: "length (size_victims c M xs) \<le> length xs"
  by (induction xs arbitrary: c) auto

lemma size_victims_stop:
  "length (size_victims c M xs) < length xs
     \<Longrightarrow> c - total_size (take (length (size_victims c M xs)) xs) \<le> M"
proof (induction xs arbitrary: c)
  case Nil
  then show ?case by simp
next
  case (Cons f rest)
  show ?case
  proof (cases "c \<le> M")
    case True
    then show ?thesis by (simp add: total_size_def)
  next
    case False
    with Cons.prems have "length (size_victims (c - size_bytes f) M rest) < length rest"
      by simp
    from Cons.IH[OF this] False show ?thesis
      by (simp add: total_size_def)
  qed
qed

lemma size_victims_minimal:
  "j < length (size_victims c M xs) \<Longrightarrow> M < c - total_size (take j xs)"
proof (induction xs arbitrary: c j)
  case Nil
  then show ?case by simp
next
  case (Cons f rest)
  then have big: "\<not> c \<le> M" by (auto split: if_splits)
  show ?case
  proof (cases j)
    case 0
    with big show ?thesis by (simp add: total_size_def)
  next
    case (Suc i)
    with Cons.prems big have "i < length (size_victims (c - size_bytes f) M rest)"
      by simp
    from Cons.IH[OF this] Suc show ?thesis
      by (simp add: total_size_def)
  qed
qed

lemma total_size_drop: "total_size (drop j xs) = total_size xs - total_size (take j xs)"
proof -
  have "total_size (take j xs @ drop j xs) = total_size (take j xs) + total_size (drop j xs)"
    unfolding total_size_def by (simp only: map_append sum_list_append)
  then show ?thesis by simp
qed

lemma total_size_insort: "total_size (insort_key g x xs) = size_bytes x + total_size xs"
  by (induction xs) (auto simp: total_size_def)

lemma total_size_sort: "total_size (sort_key g xs) = total_size xs"
proof (induction xs)
  case Nil
  then show ?case by simp
next
  case (Cons x xs)
  then show ?case by (simp add: total_size_insort) (simp add: total_size_def)
qed

lemma sorted_take_drop:
  assumes "sorted (map g xs)" "x \<in> set (take k xs)" "y \<in> set (drop k xs)"
  shows "g x \<le> g y"
proof -
  have "sorted_wrt (\<lambda>a b. g a \<le> g b) (take k xs @ drop k xs)"
    using assms(1) by (simp add: sorted_map)
  then show ?thesis
    using assms(2,3) unfolding sorted_wrt_append by blast
qed

text \<open>
  Claim C5. With a cap \<open>C\<close> (a count, so \<open>0 \<le> C\<close>) and \<open>N\<close> tracked records: if
  \<open>N > C\<close>, the entry after the count pass has exactly \<open>C\<close> records, namely the
  mtime-sorted entry without its first \<open>N - C\<close> records; those \<open>N - C\<close> removed
  records are no newer than any record kept (the stable sort fixes the order among
  equal times). If \<open>N \<le> C\<close> the pass returns 0 and leaves the daemon as it was.
\<close>

theorem count_pass_keeps_newest:
  assumes "0 \<le> max_files_per_dir (config s)"
  shows
  "let files = registry_get (file_registry s) d;
       C = max_files_per_dir (config s);
       r = cleanup_by_count d s;
       entry' = registry_get (file_registry (snd r)) d;
       oldest_first = sort_key mtime files;
       k = length files - nat C
   in (C < int (length files) \<longrightarrow>
         int (length entry') = C
         \<and> entry' = drop k oldest_first
         \<and> length (take k oldest_first) = k
         \<and> (\<forall>x \<in> set (take k oldest_first). \<forall>y \<in> set entry'. mtime x \<le> mtime y))
      \<and> (int (length files) \<le> C \<longrightarrow> r = (0, s))"
proof -
  let ?files = "registry_get (file_registry s) d"
  let ?C = "max_files_per_dir (config s)"
  let ?k = "length ?files - nat ?C"
  have over: "registry_get (file_registry (snd (cleanup_by_count d s))) d
                = drop ?k (sort_key mtime ?files)
              \<and> int (length (drop ?k (sort_key mtime ?files))) = ?C
              \<and> length (take ?k (sort_key mtime ?files)) = ?k
              \<and> (\<forall>x \<in> set (take ?k (sort_key mtime ?files)).
                    \<forall>y \<in> set (drop ?k (sort_key mtime ?files)). mtime x \<le> mtime y)"
    if gt: "?C < int (length ?files)"
  proof -
    have k: "nat (int (length ?files) - ?C) = ?k"
      using assms gt by linarith
    have reg: "registry_get (file_registry (snd (cleanup_by_count d s))) d
                 = drop ?k (sort_key mtime ?files)"
      by (simp add: cleanup_by_count_registry[OF gt] k)
    have len: "int (length (drop ?k (sort_key mtime ?files))) = ?C"
      using assms gt by simp
    have tk: "length (take ?k (sort_key mtime ?files)) = ?k"
      by simp
    have ord: "\<forall>x \<in> set (take ?k (sort_key mtime ?files)).
                 \<forall>y \<in> set (drop ?k (sort_key mtime ?files)). mtime x \<le> mtime y"
    proof (intro ballI)
      fix x y
      assume "x \<in> set (take ?k (sort_key mtime ?files))"
        and "y \<in> set (drop ?k (sort_key mtime ?files))"
      then show "mtime x \<le> mtime y"
        by (rule sorted_take_drop[OF sorted_sort_key])
    qed
    from reg len tk ord show ?thesis by blast
  qed
  show ?thesis
    unfolding Let_def using over cleanup_by_count_noop[of s d] by auto
qed

text \<open>
  Claim C6. With a cap \<open>M\<close> (\<open>0 \<le> M\<close>) and aggregate size \<open>S\<close>: if \<open>S > M\<close>, the
  size pass removes a prefix of length \<open>k\<close> of the mtime-sorted entry, the entry
  left has aggregate size at most \<open>M\<close>, and every shorter prefix would have left
  more than \<open>M\<close> (the loop stops as soon as the running total fits). If \<open>S \<le> M\<close> the
  pass returns 0 and leaves the daemon as it was.
\<close>

theorem size_pass_removes_oldest_prefix:
  assumes "0 \<le> max_disk_size_bytes (config s)"
  shows
  "let files = registry_get (file_registry s) d;
       M = max_disk_size_bytes (config s);
       r = cleanup_by_size d s;
       entry' = registry_get (file_registry (snd r)) d;
       oldest_first = sort_key mtime files;
       k = length files - length entry'
   in (M < total_size files \<longrightarrow>
         entry' = drop k oldest_first
         \<and> total_size entry' \<le> M
         \<and> (\<forall>j < k. M < total_size (drop j oldest_first)))
      \<and> (total_size files \<le> M \<longrightarrow> r = (0, s))"
proof -
  let ?files = "registry_get (file_registry s) d"
  let ?M = "max_disk_size_bytes (config s)"
  let ?srt = "sort_key mtime ?files"
  let ?S = "sum_list (map size_bytes ?files)"
  let ?v = "length (size_victims ?S ?M ?srt)"
  let ?entry = "registry_get (file_registry (snd (cleanup_by_size d s))) d"
  have over: "?entry = drop (length ?files - length ?entry) ?srt
              \<and> total_size ?entry \<le> ?M
              \<and> (\<forall>j < length ?files - length ?entry. ?M < total_size (drop j ?srt))"
    if gt: "?M < total_size ?files"
  proof -
    from gt have gt': "?M < ?S" by (simp add: total_size_def)
    have reg: "?entry = drop ?v ?srt"
      by (simp add: cleanup_by_size_registry[OF gt'])
    have vle: "?v \<le> length ?files"
      using size_victims_length[of ?S ?M ?srt] by simp
    then have k: "length ?files - length ?entry = ?v"
      by (simp add: reg)
    have S: "total_size ?srt = ?S"
      by (simp add: total_size_sort) (simp add: total_size_def)
    have fit: "total_size (drop ?v ?srt) \<le> ?M"
    proof (cases "?v < length ?srt")
      case True
      from size_victims_stop[OF True] show ?thesis
        by (simp add: total_size_drop S)
    next
      case False
      then have "drop ?v ?srt = []" by simp
      with assms show ?thesis by (simp add: total_size_def)
    qed
    have least: "\<forall>j < ?v. ?M < total_size (drop j ?srt)"
      using size_victims_minimal[of _ ?S ?M ?srt] by (simp add: total_size_drop S)
    from reg k fit least show ?thesis by simp
  qed
  have noop: "cleanup_by_size d s = (0, s)" if "total_size ?files \<le> ?M"
    using that cleanup_by_size_noop[of s d] by (simp add: total_size_def)
  show ?thesis
    unfolding Let_def using over noop by blast
qed

lemmas example_defs =
  example_daemon_def example_config_def example_fs_def rec_old_def rec_mid_def rec_new_def

text \<open>
  Claim C2 as stated fails: in the example the file of \<open>rec_old\<close> cannot be
  deleted; the pass returns 0, logs the failure, leaves the file on disk, and the
  record is gone from the registry entry all the same.
\<close>

theorem age_pass_drops_failed_counterexample:
  "fst (cleanup_by_time 1000000 ''/logs'' example_daemon) = 0
   \<and> WarnDeleteFailed ''/logs/a'' \<in> set (log (snd (cleanup_by_time 1000000 ''/logs'' example_daemon)))
   \<and> ''/logs/a'' \<in> fst ` set (fs_files (fs (snd (cleanup_by_time 1000000 ''/logs'' example_daemon))))
   \<and> rec_old \<notin> set (registry_get (file_registry (snd (cleanup_by_time 1000000 ''/logs'' example_daemon))) ''/logs'')"
  by (simp add: cleanup_by_time_def registry_get_def unlink_def example_defs Let_def)

subsection \<open>The example daemon\<close>


lemma example_entry:
  "registry_get (file_registry example_daemon) ''/logs'' = [rec_mid, rec_old, rec_new]"
  by (simp add: example_daemon_def registry_get_def)

lemma example_oldest_first:
  "sort_key mtime [rec_mid, rec_old, rec_new] = [rec_old, rec_mid, rec_new]"
  by (simp add: rec_old_def rec_mid_def rec_new_def)

lemma example_age_entry:
  "registry_get (file_registry (snd (cleanup_by_time 1000000 ''/logs'' example_daemon))) ''/logs''
     = [rec_mid, rec_new]"
  by (simp add: cleanup_by_time_registry example_entry)
     (simp add: example_defs)

text \<open>The theorems above at the example daemon, watched directory \<^verbatim>\<open>/logs\<close>, clock reading 1000000.\<close>

theorem age_pass_idempotent_witness:
  "registry_get (file_registry (snd (cleanup_by_time 1000000 ''/logs'' example_daemon))) ''/logs''
     = [rec_mid, rec_new]
   \<and> fst (cleanup_by_time 1000000 ''/logs''
            (snd (cleanup_by_time 1000000 ''/logs'' example_daemon))) = 0
   \<and> snd (cleanup_by_time 1000000 ''/logs''
            (snd (cleanup_by_time 1000000 ''/logs'' example_daemon)))
       = snd (cleanup_by_time 1000000 ''/logs'' example_daemon)"
  using age_pass_idempotent[of 1000000 "''/logs''" example_daemon] example_age_entry
  by (simp add: Let_def case_prod_beta)

theorem age_pass_drops_all_old_witness:
  "registry_get (file_registry (snd (cleanup_by_time 1000000 ''/logs'' example_daemon))) ''/logs''
     = [rec_mid, rec_new]
   \<and> fst (cleanup_by_time 1000000 ''/logs'' example_daemon)
       + delete_failures (new_events example_daemon
           (snd (cleanup_by_time 1000000 ''/logs'' example_daemon))) = 1"
proof -
  have c: "config example_daemon = example_config"
    by (simp add: example_daemon_def)
  have f1: "filter (\<lambda>f. 1000000 - real_of_int (retention_seconds example_config) \<le> mtime f)
              [rec_mid, rec_old, rec_new] = [rec_mid, rec_new]"
    by (simp add: example_config_def rec_old_def rec_mid_def rec_new_def)
  have f2: "length (filter (\<lambda>f. mtime f < 1000000 - real_of_int (retention_seconds example_config))
              [rec_mid, rec_old, rec_new]) = 1"
    by (simp add: example_config_def rec_old_def rec_mid_def rec_new_def)
  show ?thesis
    using age_pass_drops_all_old[of 1000000 example_daemon "''/logs''"]
    unfolding Let_def example_entry c f1 f2 .
qed

theorem count_pass_keeps_newest_witness:
  "0 \<le> max_files_per_dir (config example_daemon)
   \<and> max_files_per_dir (config example_daemon)
       < int (length (registry_get (file_registry example_daemon) ''/logs''))
   \<and> registry_get (file_registry (snd (cleanup_by_count ''/logs'' example_daemon))) ''/logs''
       = [rec_mid, rec_new]
   \<and> int (length (registry_get (file_registry
         (example_daemon\<lparr>config := example_config\<lparr>max_files_per_dir := 3\<rparr>\<rparr>)) ''/logs'')) \<le> 3
   \<and> cleanup_by_count ''/logs'' (example_daemon\<lparr>config := example_config\<lparr>max_files_per_dir := 3\<rparr>\<rparr>)
       = (0, example_daemon\<lparr>config := example_config\<lparr>max_files_per_dir := 3\<rparr>\<rparr>)"
proof -
  have c: "max_files_per_dir (config example_daemon) = 2"
    by (simp add: example_daemon_def example_config_def)
  have h: "0 \<le> max_files_per_dir (config example_daemon)"
    by (simp add: c)
  have gt: "max_files_per_dir (config example_daemon)
              < int (length (registry_get (file_registry example_daemon) ''/logs''))"
    by (simp add: example_entry c)
  let ?t = "example_daemon\<lparr>config := example_config\<lparr>max_files_per_dir := 3\<rparr>\<rparr>"
  have h': "0 \<le> max_files_per_dir (config ?t)"
    by simp
  have e': "registry_get (file_registry ?t) ''/logs'' = [rec_mid, rec_old, rec_new]"
    using example_entry by simp
  have le: "int (length (registry_get (file_registry ?t) ''/logs'')) \<le> 3"
    by (simp add: example_entry)
  have d: "drop (length [rec_mid, rec_old, rec_new] - nat 2) [rec_old, rec_mid, rec_new]
             = [rec_mid, rec_new]"
    by simp
  have a: "registry_get (file_registry (snd (cleanup_by_count ''/logs'' example_daemon))) ''/logs''
         = [rec_mid, rec_new]"
    using count_pass_keeps_newest[OF h, of "''/logs''"] gt
    unfolding Let_def example_entry example_oldest_first c d by blast
  have b: "cleanup_by_count ''/logs'' ?t = (0, ?t)"
    using count_pass_keeps_newest[OF h', of "''/logs''"] le
    unfolding Let_def by simp
  from h gt a le b show ?thesis by blast
qed

lemma example_size_entry:
  "registry_get (file_registry (snd (cleanup_by_size ''/logs'' example_daemon))) ''/logs''
     = [rec_mid, rec_new]"
proof -
  have c: "max_disk_size_bytes (config example_daemon) = 100"
    by (simp add: example_daemon_def example_config_def)
  have t: "sum_list (map size_bytes [rec_mid, rec_old, rec_new]) = 150"
    by (simp add: rec_old_def rec_mid_def rec_new_def)
  have v: "size_victims 150 100 [rec_old, rec_mid, rec_new] = [rec_old]"
    by (simp add: rec_old_def rec_mid_def rec_new_def)
  have gt: "max_disk_size_bytes (config example_daemon)
              < sum_list (map size_bytes (registry_get (file_registry example_daemon) ''/logs''))"
    unfolding example_entry c t by simp
  show ?thesis
    unfolding cleanup_by_size_registry[OF gt] registry_get_update
    unfolding example_entry c t example_oldest_first v by simp
qed

theorem size_pass_removes_oldest_prefix_witness:
  "0 \<le> max_disk_size_bytes (config example_daemon)
   \<and> max_disk_size_bytes (config example_daemon)
       < total_size (registry_get (file_registry example_daemon) ''/logs'')
   \<and> registry_get (file_registry (snd (cleanup_by_size ''/logs'' example_daemon))) ''/logs''
       = drop 1 (sort_key mtime [rec_mid, rec_old, rec_new])
   \<and> total_size [rec_mid, rec_new] \<le> max_disk_size_bytes (config example_daemon)
   \<and> total_size (registry_get (file_registry
         (example_daemon\<lparr>config := example_config\<lparr>max_disk_size_bytes := 150\<rparr>\<rparr>)) ''/logs'') \<le> 150
   \<and> cleanup_by_size ''/logs'' (example_daemon\<lparr>config := example_config\<lparr>max_disk_size_bytes := 150\<rparr>\<rparr>)
       = (0, example_daemon\<lparr>config := example_config\<lparr>max_disk_size_bytes := 150\<rparr>\<rparr>)"
proof -
  have c: "max_disk_size_bytes (config example_daemon) = 100"
    by (simp add: example_daemon_def example_config_def)
  have t: "total_size [rec_mid, rec_old, rec_new] = 150"
    by (simp add: total_size_def rec_old_def rec_mid_def rec_new_def)
  have h: "0 \<le> max_disk_size_bytes (config example_daemon)"
    by (simp add: c)
  have gt: "max_disk_size_bytes (config example_daemon)
              < total_size (registry_get (file_registry example_daemon) ''/logs'')"
    by (simp add: example_entry c t)
  let ?t = "example_daemon\<lparr>config := example_config\<lparr>max_disk_size_bytes := 150\<rparr>\<rparr>"
  have h': "0 \<le> max_disk_size_bytes (config ?t)"
    by simp
  have le: "total_size (registry_get (file_registry ?t) ''/logs'') \<le> 150"
    by (simp add: example_entry t)
  have k: "length [rec_mid, rec_old, rec_new] - length [rec_mid, rec_new] = 1"
    by simp
  have a: "registry_get (file_registry (snd (cleanup_by_size ''/logs'' example_daemon))) ''/logs''
             = drop 1 (sort_key mtime [rec_mid, rec_old, rec_new])
           \<and> total_size [rec_mid, rec_new] \<le> max_disk_size_bytes (config example_daemon)"
    using size_pass_removes_oldest_prefix[OF h, of "''/logs''"] gt
    unfolding Let_def example_entry example_size_entry k by blast
  have b: "cleanup_by_size ''/logs'' ?t = (0, ?t)"
    using size_pass_removes_oldest_prefix[OF h', of "''/logs''"] le
    unfolding Let_def by simp
  from h gt a le b show ?thesis by blast
qed

section \<open>The caps ignore the outcome of the deletions\<close>


lemma count_fs_indep:
  "file_registry (snd (cleanup_by_count d (s\<lparr>fs := fsys\<rparr>))) = file_registry (snd (cleanup_by_count d s))"
proof (cases "max_files_per_dir (config s) < int (length (registry_get (file_registry s) d))")
  case True
  then show ?thesis
    using cleanup_by_count_registry[of s d] cleanup_by_count_registry[of "s\<lparr>fs := fsys\<rparr>" d]
    by simp
next
  case False
  then show ?thesis
    using cleanup_by_count_noop[of s d] cleanup_by_count_noop[of "s\<lparr>fs := fsys\<rparr>" d]
    by simp
qed

lemma size_fs_indep:
  "file_registry (snd (cleanup_by_size d (s\<lparr>fs := fsys\<rparr>))) = file_registry (snd (cleanup_by_size d s))"
proof (cases "max_disk_size_bytes (config s) < sum_list (map size_bytes (registry_get (file_registry s) d))")
  case True
  then show ?thesis
    using cleanup_by_size_registry[of s d] cleanup_by_size_registry[of "s\<lparr>fs := fsys\<rparr>" d]
    by simp
next
  case False
  then show ?thesis
    using cleanup_by_size_noop[of s d] cleanup_by_size_noop[of "s\<lparr>fs := fsys\<rparr>" d]
    by simp
qed

lemma count_balance:
  "fst (cleanup_by_count d s) + delete_failures (new_events s (snd (cleanup_by_count d s)))
     = length (registry_get (file_registry s) d)
       - length (registry_get (file_registry (snd (cleanup_by_count d s))) d)"
proof (cases "max_files_per_dir (config s) < int (length (registry_get (file_registry s) d))")
  case True
  show ?thesis
    unfolding cleanup_by_count_count[OF True] cleanup_by_count_registry[OF True] registry_get_update
    by simp
next
  case False
  then have "cleanup_by_count d s = (0, s)"
    using cleanup_by_count_noop[of s d] by simp
  then show ?thesis
    by (simp add: new_events_def delete_failures_def)
qed

lemma size_balance:
  "fst (cleanup_by_size d s) + delete_failures (new_events s (snd (cleanup_by_size d s)))
     = length (registry_get (file_registry s) d)
       - length (registry_get (file_registry (snd (cleanup_by_size d s))) d)"
proof (cases "max_disk_size_bytes (config s) < sum_list (map size_bytes (registry_get (file_registry s) d))")
  case True
  have "length (size_victims (sum_list (map size_bytes (registry_get (file_registry s) d)))
           (max_disk_size_bytes (config s)) (sort_key mtime (registry_get (file_registry s) d)))
          \<le> length (registry_get (file_registry s) d)"
    using size_victims_length[of _ _ "sort_key mtime (registry_get (file_registry s) d)"] by simp
  then show ?thesis
    unfolding cleanup_by_size_count[OF True] cleanup_by_size_registry[OF True] registry_get_update
    by simp
next
  case False
  then have "cleanup_by_size d s = (0, s)"
    using cleanup_by_size_noop[of s d] by simp
  then show ?thesis
    by (simp add: new_events_def delete_failures_def)
qed

text \<open>
  Claim C10. For the count cap and the size cap, the entry after a pass that runs
  is the keep-list computed from the sorted entry before any file is touched, and
  the registry after the pass is the same whatever the file system holds, so it
  does not depend on which deletions succeed. The returned count and the number of
  failures logged by the pass add up to the number of records dropped from the
  entry; hence with a failed deletion the returned count is strictly smaller than
  the number of records dropped.
\<close>

theorem cap_passes_drop_before_deleting:
  "let files = registry_get (file_registry s) d;
       C = max_files_per_dir (config s);
       M = max_disk_size_bytes (config s);
       oldest_first = sort_key mtime files;
       rc = cleanup_by_count d s;
       rs = cleanup_by_size d s;
       entry_c = registry_get (file_registry (snd rc)) d;
       entry_s = registry_get (file_registry (snd rs)) d
   in (C < int (length files) \<longrightarrow>
         entry_c = drop (nat (int (length files) - C)) oldest_first)
      \<and> (M < total_size files \<longrightarrow>
         entry_s = drop (length (size_victims (total_size files) M oldest_first)) oldest_first)
      \<and> file_registry (snd (cleanup_by_count d (s\<lparr>fs := fsys\<rparr>))) = file_registry (snd rc)
      \<and> file_registry (snd (cleanup_by_size d (s\<lparr>fs := fsys\<rparr>))) = file_registry (snd rs)
      \<and> fst rc + delete_failures (new_events s (snd rc)) = length files - length entry_c
      \<and> fst rs + delete_failures (new_events s (snd rs)) = length files - length entry_s
      \<and> (0 < delete_failures (new_events s (snd rc)) \<longrightarrow> fst rc < length files - length entry_c)
      \<and> (0 < delete_failures (new_events s (snd rs)) \<longrightarrow> fst rs < length files - length entry_s)"
proof -
  have a: "max_files_per_dir (config s) < int (length (registry_get (file_registry s) d)) \<Longrightarrow>
        registry_get (file_registry (snd (cleanup_by_count d s))) d
          = drop (nat (int (length (registry_get (file_registry s) d)) - max_files_per_dir (config s)))
              (sort_key mtime (registry_get (file_registry s) d))"
    by (simp add: cleanup_by_count_registry)
  have b: "max_disk_size_bytes (config s) < total_size (registry_get (file_registry s) d) \<Longrightarrow>
        registry_get (file_registry (snd (cleanup_by_size d s))) d
          = drop (length (size_victims (total_size (registry_get (file_registry s) d))
                    (max_disk_size_bytes (config s))
                    (sort_key mtime (registry_get (file_registry s) d))))
              (sort_key mtime (registry_get (file_registry s) d))"
    by (simp add: cleanup_by_size_registry total_size_def)
  show ?thesis
    unfolding Let_def
    using a b count_fs_indep[of d fsys s] size_fs_indep[of d fsys s]
      count_balance[of d s] size_balance[of d s]
    by (intro conjI impI) linarith+
qed

lemma example_count_failures:
  "delete_failures (new_events example_daemon (snd (cleanup_by_count ''/logs'' example_daemon))) = 1"
  by (simp add: cleanup_by_count_def registry_get_def unlink_def example_defs Let_def
        new_events_def delete_failures_def)

lemma example_size_failures:
  "delete_failures (new_events example_daemon (snd (cleanup_by_size ''/logs'' example_daemon))) = 1"
  by (simp add: cleanup_by_size_def registry_get_def unlink_def example_defs Let_def
        new_events_def delete_failures_def)

theorem cap_passes_drop_before_deleting_witness:
  "max_files_per_dir (config example_daemon)
     < int (length (registry_get (file_registry example_daemon) ''/logs''))
   \<and> max_disk_size_bytes (config example_daemon)
     < total_size (registry_get (file_registry example_daemon) ''/logs'')
   \<and> 0 < delete_failures (new_events example_daemon (snd (cleanup_by_count ''/logs'' example_daemon)))
   \<and> 0 < delete_failures (new_events example_daemon (snd (cleanup_by_size ''/logs'' example_daemon)))
   \<and> registry_get (file_registry (snd (cleanup_by_count ''/logs'' example_daemon))) ''/logs''
       = [rec_mid, rec_new]
   \<and> registry_get (file_registry (snd (cleanup_by_size ''/logs'' example_daemon))) ''/logs''
       = [rec_mid, rec_new]
   \<and> fst (cleanup_by_count ''/logs'' example_daemon) = 0
   \<and> fst (cleanup_by_size ''/logs'' example_daemon) = 0"
proof -
  have c: "max_files_per_dir (config example_daemon) = 2"
    and m: "max_disk_size_bytes (config example_daemon) = 100"
    by (simp_all add: example_daemon_def example_config_def)
  have t: "total_size [rec_mid, rec_old, rec_new] = 150"
    by (simp add: total_size_def rec_old_def rec_mid_def rec_new_def)
  have v: "size_victims 150 100 [rec_old, rec_mid, rec_new] = [rec_old]"
    by (simp add: rec_old_def rec_mid_def rec_new_def)
  have d: "drop (nat (int (length [rec_mid, rec_old, rec_new]) - 2)) [rec_old, rec_mid, rec_new]
             = [rec_mid, rec_new]"
    "drop (length [rec_old]) [rec_old, rec_mid, rec_new] = [rec_mid, rec_new]"
    "length [rec_mid, rec_old, rec_new] - length [rec_mid, rec_new] = 1"
    by simp_all
  have gc: "max_files_per_dir (config example_daemon)
              < int (length (registry_get (file_registry example_daemon) ''/logs''))"
    by (simp add: example_entry c)
  have gs: "max_disk_size_bytes (config example_daemon)
              < total_size (registry_get (file_registry example_daemon) ''/logs'')"
    by (simp add: example_entry m t)
  note th = cap_passes_drop_before_deleting[of example_daemon "''/logs''",
      unfolded Let_def example_entry example_oldest_first c m t v d]
  from th gc gs have ec: "registry_get (file_registry (snd (cleanup_by_count ''/logs'' example_daemon))) ''/logs''
       = [rec_mid, rec_new]"
    and es: "registry_get (file_registry (snd (cleanup_by_size ''/logs'' example_daemon))) ''/logs''
       = [rec_mid, rec_new]"
    by (simp_all add: example_entry c m t)
  from th have "fst (cleanup_by_count ''/logs'' example_daemon) = 0"
    and "fst (cleanup_by_size ''/logs'' example_daemon) = 0"
    unfolding ec es d example_count_failures example_size_failures by simp_all
  with gc gs ec es show ?thesis
    by (simp add: example_count_failures example_size_failures)
qed

section \<open>Properties of the scanner\<close>


lemma scan_entries_files:
  "fst (scan_entries es (cf, lg)) = fst (scan_entries es (cf, lg'))"
proof (induction es arbitrary: cf lg lg')
  case Nil
  then show ?case by simp
next
  case (Cons e es)
  obtain p rel node where e: "e = (p, rel, node)"
    by (cases e) auto
  show ?case
    unfolding e using Cons.IH by (cases "stat_ok node") auto
qed

lemma scan_directory_present:
  assumes "path_exists (fs s) d" "d \<notin> set (fs_unwalkable (fs s))"
  shows "file_registry (scan_directory d s) = AList.update d (snapshot (fs s) d) (file_registry s)"
proof -
  have "fst (scan_entries (rglob_files (fs s) d) ([], log s))
          = fst (scan_entries (rglob_files (fs s) d) ([], []))"
    by (rule scan_entries_files)
  with assms show ?thesis
    by (simp add: scan_directory_def snapshot_def Let_def case_prod_beta)
qed

text \<open>
  Claim C8, as the code has it. A scan of a directory that exists and can be
  walked replaces the entry by the snapshot of the walk, which depends on the file
  system alone and not on the prior entry, and leaves the other entries alone. A
  scan of a directory that does not exist logs a warning and changes nothing else:
  the prior entry, if there is one, stays in the registry.
\<close>

theorem scan_replaces_or_leaves:
  "(path_exists (fs s) d \<and> d \<notin> set (fs_unwalkable (fs s)) \<longrightarrow>
      registry_get (file_registry (scan_directory d s)) d = snapshot (fs s) d
      \<and> (\<forall>d'. d' \<noteq> d \<longrightarrow>
            registry_get (file_registry (scan_directory d s)) d' = registry_get (file_registry s) d'))
   \<and> (\<not> path_exists (fs s) d \<longrightarrow> scan_directory d s = s\<lparr>log := log s @ [WarnDirMissing d]\<rparr>)"
  by (simp add: scan_directory_present) (simp add: scan_directory_def)

text \<open>
  Claim C8 as stated fails: after \<^verbatim>\<open>/logs\<close> has gone from disk, a scan logs the
  warning and the entry still holds the three records of the earlier scan, not the
  empty result.
\<close>

theorem scan_missing_keeps_entry_counterexample:
  "\<not> path_exists (fs gone_daemon) ''/logs''
   \<and> registry_get (file_registry (scan_directory ''/logs'' gone_daemon)) ''/logs''
       = [rec_mid, rec_old, rec_new]
   \<and> WarnDirMissing ''/logs'' \<in> set (log (scan_directory ''/logs'' gone_daemon))"
  by (simp add: scan_directory_def path_exists_def gone_daemon_def example_daemon_def
        example_fs_def registry_get_def)

lemma example_snapshot:
  "snapshot (fs example_daemon) ''/logs'' = [rec_mid, rec_old, rec_new]"
  by (simp add: snapshot_def rglob_files_def List.map_filter_def example_defs)

theorem scan_replaces_or_leaves_witness:
  "path_exists (fs example_daemon) ''/logs''
   \<and> ''/logs'' \<notin> set (fs_unwalkable (fs example_daemon))
   \<and> registry_get (file_registry (scan_directory ''/logs''
         (example_daemon\<lparr>file_registry := [(''/logs'', [rec_old, rec_old])]\<rparr>))) ''/logs''
       = [rec_mid, rec_old, rec_new]
   \<and> \<not> path_exists (fs gone_daemon) ''/logs''
   \<and> scan_directory ''/logs'' gone_daemon
       = gone_daemon\<lparr>log := log gone_daemon @ [WarnDirMissing ''/logs'']\<rparr>"
proof -
  let ?s = "example_daemon\<lparr>file_registry := [(''/logs'', [rec_old, rec_old])]\<rparr>"
  have ex: "path_exists (fs example_daemon) ''/logs''"
    and walk: "''/logs'' \<notin> set (fs_unwalkable (fs example_daemon))"
    by (simp_all add: path_exists_def example_daemon_def example_fs_def)
  have gone: "\<not> path_exists (fs gone_daemon) ''/logs''"
    by (simp add: path_exists_def gone_daemon_def example_fs_def)
  have a: "registry_get (file_registry (scan_directory ''/logs'' ?s)) ''/logs''
             = [rec_mid, rec_old, rec_new]"
    using scan_replaces_or_leaves[of ?s "''/logs''"] ex walk example_snapshot by simp
  have b: "scan_directory ''/logs'' gone_daemon
             = gone_daemon\<lparr>log := log gone_daemon @ [WarnDirMissing ''/logs'']\<rparr>"
    using scan_replaces_or_leaves[of gone_daemon "''/logs''"] gone by blast
  from ex walk a gone b show ?thesis by blast
qed

section \<open>Saving and loading the registry\<close>


lemma file_roundtrip: "file_of_json (file_to_json f) = Some f"
  by (simp add: file_of_json_def file_to_json_def json_member_def json_str_def json_int_def
        json_number_def)

lemma those_map_Some: "those (map (\<lambda>x. Some (g x)) xs) = Some (map g xs)"
  by (induction xs) auto

lemma files_roundtrip: "files_of_json (JArr (map file_to_json files)) = Some files"
proof -
  have "map file_of_json (map file_to_json files) = map (\<lambda>x. Some (id x)) files"
    by (simp add: file_roundtrip)
  then show ?thesis
    by (simp add: files_of_json_def those_map_Some del: map_map)
qed

lemma update_fresh: "k \<notin> fst ` set al \<Longrightarrow> AList.update k v al = al @ [(k, v)]"
  by (induction al) auto

lemma load_entries_roundtrip:
  "distinct (map fst (acc @ reg)) \<Longrightarrow>
   load_entries (map (\<lambda>(dir_path, files). (dir_path, JArr (map file_to_json files))) reg) acc
     = (acc @ reg, True)"
proof (induction reg arbitrary: acc)
  case Nil
  then show ?case by simp
next
  case (Cons e reg)
  obtain k files where e: "e = (k, files)" by (cases e) auto
  from Cons.prems have fresh: "k \<notin> fst ` set acc"
    and d: "distinct (map fst ((acc @ [(k, files)]) @ reg))"
    by (auto simp: e)
  from Cons.IH[OF d] fresh show ?case
    by (simp add: e files_roundtrip update_fresh)
qed

text \<open>
  Claim C7. When the save succeeds (the state file can be written) and the
  registry is a dict (its keys are distinct), loading the file just written into
  an empty registry, before any rescan, gives back the registry that was saved:
  the same directories in the same order, each with the same list of records,
  equal in path, size, mtime and relative path.
\<close>

theorem save_load_roundtrip:
  assumes "state_writable (fs s)" and "distinct (map fst (file_registry s))"
  shows "file_registry (load_state (t\<lparr>file_registry := [], fs := fs (save_state s)\<rparr>))
           = file_registry s"
  using assms load_entries_roundtrip[of "[]" "file_registry s"]
  by (simp add: load_state_def save_state_def registry_to_json_def)

theorem save_load_roundtrip_witness:
  "state_writable (fs example_daemon)
   \<and> distinct (map fst (file_registry example_daemon))
   \<and> file_registry (load_state
        (example_daemon\<lparr>file_registry := [], fs := fs (save_state example_daemon)\<rparr>))
       = [(''/logs'', [rec_mid, rec_old, rec_new])]"
proof -
  have w: "state_writable (fs example_daemon)"
    by (simp add: example_daemon_def example_fs_def)
  have d: "distinct (map fst (file_registry example_daemon))"
    by (simp add: example_daemon_def)
  have r: "file_registry example_daemon = [(''/logs'', [rec_mid, rec_old, rec_new])]"
    by (simp add: example_daemon_def)
  from save_load_roundtrip[OF w d, of example_daemon] w d r show ?thesis
    by simp
qed

section \<open>A cycle skipped for a busy CPU\<close>

text \<open>
  Claim C1, as the code has it. When the sampled CPU utilisation exceeds the
  threshold, the cycle only logs the skip: the registry, the file system (with the
  state file) and also the heartbeat timestamp are left as they were.
\<close>

theorem cpu_gate_skips_cycle_and_heartbeat:
  assumes "cpu env = Sampled pct" and "cpu_threshold (config s) < pct"
  shows "perform_cleanup env s = s\<lparr>log := log s @ [InfoCpuSkip]\<rparr>"
  using assms by (simp add: perform_cleanup_def is_cpu_busy_def)

text \<open>
  Claim C1 as stated fails: a cycle that samples 95 percent against a threshold of
  80 and would end at clock reading 1000 leaves the heartbeat at 0.
\<close>

theorem cpu_gate_heartbeat_counterexample:
  "cpu busy_env = Sampled 95
   \<and> cpu_threshold (config example_daemon) < 95
   \<and> clock_end busy_env = 1000
   \<and> last_heartbeat example_daemon = 0
   \<and> last_heartbeat (perform_cleanup busy_env example_daemon) = 0"
  by (simp add: perform_cleanup_def is_cpu_busy_def busy_env_def example_daemon_def
        example_config_def)

theorem cpu_gate_skips_cycle_and_heartbeat_witness:
  "cpu busy_env = Sampled 95
   \<and> cpu_threshold (config example_daemon) < 95
   \<and> file_registry (perform_cleanup busy_env example_daemon) = file_registry example_daemon
   \<and> fs (perform_cleanup busy_env example_daemon) = fs example_daemon
   \<and> last_heartbeat (perform_cleanup busy_env example_daemon) = last_heartbeat example_daemon"
proof -
  have a: "cpu busy_env = Sampled 95"
    by (simp add: busy_env_def)
  have b: "cpu_threshold (config example_daemon) < 95"
    by (simp add: example_daemon_def example_config_def)
  from cpu_gate_skips_cycle_and_heartbeat[OF a b] a b show ?thesis
    by simp
qed

section \<open>Loading the configuration\<close>

text \<open>The parsers on well-formed and malformed strings.\<close>


lemma default_config_loads:
  "load_config (\<lambda>text. Inr 80) [] =
     Inr (\<lparr>directories = [''/var/log''], retention_seconds = 259200,
           max_files_per_dir = 10000, max_disk_size_bytes = 10737418240,
           scan_interval = 300, heartbeat_interval = 300, cpu_threshold = 80,
           state_file = ''/tmp/cleanup_daemon_state.json'', heartbeat_timeout = 600\<rparr>, [])"
  by (simp add: load_config_def get_env_def DEFAULT_CONFIG_def py_int_def
        parse_retention_time_def strip_def lower_def is_space_def is_digit_def digit_val_def
        units_def Let_def)

lemma py_int_examples:
  "py_int '' -4_2 '' = Inr (- 42)" "py_int ''007'' = Inr 7" "py_int ''4.5'' = Inl ValueError"
  "py_int '''' = Inl ValueError" "py_int ''1__0'' = Inl ValueError"
  by (simp_all add: py_int_def strip_def is_space_def is_digit_def digit_val_def Let_def)

lemma parse_retention_examples:
  "parse_retention_time ''7d'' = (604800, [])"
  "parse_retention_time ''1.5H'' = (5400, [])"
  "parse_retention_time ''90'' = (7776000, [])"
  "parse_retention_time ''1.2.3'' = (259200, [WarnRetentionFailed])"
  "parse_retention_time ''  '' = (259200, [WarnRetentionEmpty])"
  by (simp_all add: parse_retention_time_def strip_def lower_def is_space_def is_digit_def
        digit_val_def units_def Let_def)

text \<open>
  Claim C3 fails on the code. The retention string has a parser of its own that
  falls back to three days with a warning, but the integer keys go through a bare
  \<^verbatim>\<open>int(...)\<close>: with the non-numeric value \<^verbatim>\<open>abc\<close> the loader ends with
  ValueError, and so does the construction of the daemon.
\<close>

theorem malformed_number_aborts_startup:
  "parse_retention_time ''abc'' = (3 * 86400, [WarnRetentionFailed])
   \<and> load_config py_float [(''MAX_FILES_PER_DIR'', ''abc'')] = Inl ValueError
   \<and> load_config py_float [(''MAX_DISK_SIZE_MB'', ''abc'')] = Inl ValueError
   \<and> load_config py_float [(''SCAN_INTERVAL'', ''abc'')] = Inl ValueError
   \<and> load_config py_float [(''HEARTBEAT_INTERVAL'', ''abc'')] = Inl ValueError
   \<and> init_daemon py_float [(''MAX_FILES_PER_DIR'', ''abc'')] now fsys = Inl ValueError"
  by (simp add: init_daemon_def load_config_def get_env_def DEFAULT_CONFIG_def py_int_def
        parse_retention_time_def strip_def lower_def is_space_def is_digit_def digit_val_def
        units_def Let_def)

section \<open>The supervisor and a stalled worker\<close>

lemma cleanup_loop_not_running:
  "\<not> running s \<Longrightarrow> cleanup_loop (Suc k) envs s = Some (thread_exit s)"
  by simp

lemma heartbeat_tick_timeout:
  assumes "cleanup_thread s = Some w" "alive w"
    and "real_of_int (heartbeat_timeout (config s)) < t - last_heartbeat s"
  shows "running (heartbeat_tick t joined s) = False
       \<and> cleanup_thread (heartbeat_tick t joined s) = Some \<lparr>alive = True, cycles = 0\<rparr>"
  using assms
  by (simp add: heartbeat_tick_def stop_cleanup_thread_def start_cleanup_thread_def)

text \<open>
  Claim C4 fails on the code. The example daemon is running with a live worker
  whose last activity is older than the timeout. The supervisor's turn stops the
  worker by clearing \<^verbatim>\<open>self.running\<close> and starts a replacement, but nothing sets
  the flag again: the loop of the replacement returns at its first test with no
  cycle run, and the supervisor's own loop ends as well.
\<close>

theorem stalled_worker_replacement_runs_no_cycle:
  "running example_daemon
   \<and> cleanup_thread example_daemon = Some \<lparr>alive = True, cycles = 3\<rparr>
   \<and> real_of_int (heartbeat_timeout (config example_daemon)) < 1000 - last_heartbeat example_daemon
   \<and> running (heartbeat_tick 1000 False example_daemon) = False
   \<and> cleanup_thread (heartbeat_tick 1000 False example_daemon) = Some \<lparr>alive = True, cycles = 0\<rparr>
   \<and> cleanup_loop (Suc k) envs (heartbeat_tick 1000 False example_daemon)
       = Some (thread_exit (heartbeat_tick 1000 False example_daemon))
   \<and> cleanup_thread (thread_exit (heartbeat_tick 1000 False example_daemon))
       = Some \<lparr>alive = False, cycles = 0\<rparr>
   \<and> heartbeat_monitor (Suc k) ticks (heartbeat_tick 1000 False example_daemon)
       = Some (heartbeat_tick 1000 False example_daemon)"
proof -
  have a: "running example_daemon"
    and b: "cleanup_thread example_daemon = Some \<lparr>alive = True, cycles = 3\<rparr>"
    and c: "real_of_int (heartbeat_timeout (config example_daemon))
              < 1000 - last_heartbeat example_daemon"
    by (simp_all add: example_daemon_def example_config_def)
  from heartbeat_tick_timeout[OF b _ c, of False]
  have d: "running (heartbeat_tick 1000 False example_daemon) = False"
    and e: "cleanup_thread (heartbeat_tick 1000 False example_daemon)
              = Some \<lparr>alive = True, cycles = 0\<rparr>"
    by simp_all
  from a b c d e show ?thesis
    by (simp add: thread_exit_def)
qed

end
